theory Spec2Isabelle
  imports Complex_Main
begin

section \<open>Data model\<close>

text \<open>
  The transforms of \<^verbatim>\<open>dataset/transform_3d.py\<close> work on a Python dict, the record
  \<^verbatim>\<open>results\<close>, whose entry \<^verbatim>\<open>'img'\<close> is a list of numpy arrays of shape H x W x C.
  An array is modelled by its element type and its nested rows; numpy's float32 and
  float64 numbers are idealised as real numbers (rounding is not modelled).
\<close>

datatype dtype = Float32 | Float64 | UInt8

record image =
  dtype :: dtype
  pix :: "real list list list"

definition height :: "image \<Rightarrow> nat" where
  "height img = length (pix img)"

definition width :: "image \<Rightarrow> nat" where
  "width img = (case pix img of [] \<Rightarrow> 0 | r # _ \<Rightarrow> length r)"

definition channels :: "image \<Rightarrow> nat" where
  "channels img =
     (case pix img of [] \<Rightarrow> 0 | r # _ \<Rightarrow> (case r of [] \<Rightarrow> 0 | p # _ \<Rightarrow> length p))"

text \<open>A well-formed array: at least one row and one column, every row of the same
  length, every pixel with the same number of channels.\<close>

definition wf_image :: "image \<Rightarrow> bool" where
  "wf_image img =
     (0 < height img \<and> 0 < width img \<and>
      list_all (\<lambda>r. length r = width img \<and> list_all (\<lambda>p. length p = channels img) r)
        (pix img))"

text \<open>The shape of an array, pixel by pixel: the number of channels of every pixel of
  every row.\<close>

definition shape_of :: "image \<Rightarrow> nat list list" where
  "shape_of img = map (map length) (pix img)"

text \<open>\<^verbatim>\<open>img[y, x]\<close>, the pixel (the list of its channels) of row y and column x.\<close>

definition pixel :: "image \<Rightarrow> nat \<Rightarrow> nat \<Rightarrow> real list" where
  "pixel img y x = pix img ! y ! x"

datatype error =
    AssertionError
  | KeyError string
  | IndexError
  | ZeroDivisionError
  | UnboundLocalError
  | TypeError
  | CvError
  | NonFinite

text \<open>The values the transforms store in the record.\<close>

datatype pyval =
    PNone
  | PBool bool
  | PInt nat
  | PSize "nat \<times> nat"
  | PFloats "real list"
  | Imgs "image list"
  | NormCfg "real list" "real list" bool
  | Metas "(string \<times> real list list list) list"

type_synonym results = "string \<Rightarrow> pyval option"

text \<open>\<^verbatim>\<open>results[key]\<close> for a key that holds a list of images.\<close>

definition get_imgs :: "results \<Rightarrow> string \<Rightarrow> error + image list" where
  "get_imgs results k =
     (case results k of
        None \<Rightarrow> Inl (KeyError k)
      | Some (Imgs imgs) \<Rightarrow> Inr imgs
      | Some _ \<Rightarrow> Inl TypeError)"

text \<open>A list comprehension whose body may raise: the first exception ends it.\<close>

fun map_err :: "('a \<Rightarrow> error + 'b) \<Rightarrow> 'a list \<Rightarrow> error + 'b list" where
  "map_err f [] = Inr []"
| "map_err f (x # xs) =
     (case f x of
        Inl e \<Rightarrow> Inl e
      | Inr y \<Rightarrow> (case map_err f xs of Inl e \<Rightarrow> Inl e | Inr ys \<Rightarrow> Inr (y # ys)))"

section \<open>PadMultiViewImage\<close>

record pad_cfg =
  pad_size :: "(nat \<times> nat) option"
  size_divisor :: "nat option"
  pad_val :: real

text \<open>
  \<^verbatim>\<open>__init__(self, size=None, size_divisor=None, pad_val=0)\<close>: the first assertion
  (it fails when both arguments are None), then the reset of \<^verbatim>\<open>size_divisor\<close> when a
  size is given, then the second assertion on the local \<^verbatim>\<open>size_divisor\<close>.
\<close>

definition PadMultiViewImage_init ::
  "(nat \<times> nat) option \<Rightarrow> nat option \<Rightarrow> real \<Rightarrow> error + pad_cfg" where
  "PadMultiViewImage_init sz sd pv =
     (if sz = None \<and> sd = None then Inl AssertionError
      else
        let sd' = (if sz = None then sd else None) in
        if sz = None \<or> sd' = None
        then Inr \<lparr>pad_size = sz, size_divisor = sd', pad_val = pv\<rparr>
        else Inl AssertionError)"

text \<open>
  \<^verbatim>\<open>mmcv.impad(img, shape=..., pad_val=...)\<close> is a routine of the external image
  library. The model follows the library: the border is added on the right and at the
  bottom only, and its extent is \<^verbatim>\<open>max(shape[1] - img.shape[1], 0)\<close> columns and
  \<^verbatim>\<open>max(shape[0] - img.shape[0], 0)\<close> rows (truncating subtraction on naturals).
  The library hands \<^verbatim>\<open>pad_val\<close> to OpenCV's \<^verbatim>\<open>copyMakeBorder\<close> as the border value,
  and OpenCV reads a single number as the scalar (pad_val, 0, 0, 0), one component for
  each channel: a border pixel holds \<^verbatim>\<open>pad_val\<close> in channel 0 and 0 in the other
  channels. The model is for arrays of at most four channels.
\<close>

definition fill_px :: "nat \<Rightarrow> real \<Rightarrow> real list" where
  "fill_px c v = (if c = 0 then [] else v # replicate (c - 1) 0)"

definition impad :: "image \<Rightarrow> nat \<times> nat \<Rightarrow> real \<Rightarrow> image" where
  "impad img shape v =
     (let pad_w = snd shape - width img;
          pad_h = fst shape - height img;
          fill = fill_px (channels img) v
      in img\<lparr>pix :=
           map (\<lambda>r. r @ replicate pad_w fill) (pix img)
           @ replicate pad_h (replicate (width img + pad_w) fill)\<rparr>)"

text \<open>
  \<^verbatim>\<open>mmcv.impad_to_multiple(img, divisor, pad_val)\<close>: the library computes
  \<^verbatim>\<open>int(np.ceil(img.shape[0] / divisor)) * divisor\<close> for both axes and calls
  \<^verbatim>\<open>impad\<close>; Python's division raises on a zero divisor.
\<close>

definition impad_to_multiple :: "image \<Rightarrow> nat \<Rightarrow> real \<Rightarrow> error + image" where
  "impad_to_multiple img d v =
     (if d = 0 then Inl ZeroDivisionError
      else
        let pad_h = nat \<lceil>real (height img) / real d\<rceil> * d;
            pad_w = nat \<lceil>real (width img) / real d\<rceil> * d
        in Inr (impad img (pad_h, pad_w) v))"

text \<open>One of the three comprehensions of \<^verbatim>\<open>_pad_img\<close>, in the mode of the
  configuration. With neither mode set no branch runs (the constructor excludes it).\<close>

definition pad_list :: "pad_cfg \<Rightarrow> image list \<Rightarrow> error + image list" where
  "pad_list cfg imgs =
     (case pad_size cfg of
        Some sz \<Rightarrow> Inr (map (\<lambda>img. impad img sz (pad_val cfg)) imgs)
      | None \<Rightarrow>
          (case size_divisor cfg of
             Some d \<Rightarrow> map_err (\<lambda>img. impad_to_multiple img d (pad_val cfg)) imgs
           | None \<Rightarrow> Inl UnboundLocalError))"

definition opt_val :: "('a \<Rightarrow> pyval) \<Rightarrow> 'a option \<Rightarrow> pyval" where
  "opt_val f x = (case x of None \<Rightarrow> PNone | Some a \<Rightarrow> f a)"

text \<open>The optional side lists \<^verbatim>\<open>'extra_img'\<close> and \<^verbatim>\<open>'ori_img'\<close>: padded when the key
  is present.\<close>

definition pad_key :: "pad_cfg \<Rightarrow> results \<Rightarrow> string \<Rightarrow> error + image list option" where
  "pad_key cfg results k =
     (if results k = None then Inr None
      else
        case get_imgs results k of
          Inl e \<Rightarrow> Inl e
        | Inr imgs \<Rightarrow> (case pad_list cfg imgs of Inl e \<Rightarrow> Inl e | Inr ps \<Rightarrow> Inr (Some ps)))"

definition put_opt :: "results \<Rightarrow> string \<Rightarrow> image list option \<Rightarrow> results" where
  "put_opt results k v = (case v of None \<Rightarrow> results | Some ps \<Rightarrow> results(k \<mapsto> Imgs ps))"

definition pad_img :: "pad_cfg \<Rightarrow> results \<Rightarrow> error + results" where
  "pad_img cfg results =
     (if pad_size cfg = None \<and> size_divisor cfg = None then Inl UnboundLocalError
      else
        case get_imgs results ''img'' of
          Inl e \<Rightarrow> Inl e
        | Inr imgs \<Rightarrow>
        (case pad_list cfg imgs of
          Inl e \<Rightarrow> Inl e
        | Inr padded_img \<Rightarrow>
        (case pad_key cfg results ''extra_img'' of
          Inl e \<Rightarrow> Inl e
        | Inr padded_extra_img \<Rightarrow>
        (case pad_key cfg results ''ori_img'' of
          Inl e \<Rightarrow> Inl e
        | Inr padded_ori_img \<Rightarrow>
            Inr (put_opt
                  (put_opt
                    (results(''img'' \<mapsto> Imgs padded_img,
                             ''pad_fixed_size'' \<mapsto> opt_val PSize (pad_size cfg),
                             ''pad_size_divisor'' \<mapsto> opt_val PInt (size_divisor cfg)))
                    ''extra_img'' padded_extra_img)
                  ''ori_img'' padded_ori_img)))))"

definition PadMultiViewImage_call :: "pad_cfg \<Rightarrow> results \<Rightarrow> error + results" where
  "PadMultiViewImage_call cfg results = pad_img cfg results"

text \<open>A side list of the record is well-formed when the key is absent or holds a list
  of images.\<close>

definition side_ok :: "results \<Rightarrow> string \<Rightarrow> bool" where
  "side_ok results k = (case results k of None \<Rightarrow> True | Some (Imgs _) \<Rightarrow> True | Some _ \<Rightarrow> False)"

section \<open>NormalizeMultiviewImage\<close>

record norm_cfg =
  mean :: "real list"
  std :: "real list"
  to_rgb :: bool

definition NormalizeMultiviewImage_init :: "real list \<Rightarrow> real list \<Rightarrow> bool \<Rightarrow> norm_cfg" where
  "NormalizeMultiviewImage_init m s rgb = \<lparr>mean = m, std = s, to_rgb = rgb\<rparr>"

text \<open>\<^verbatim>\<open>cv2.subtract(img, mean, img); cv2.multiply(img, stdinv, img)\<close> on one pixel,
  with \<^verbatim>\<open>stdinv = 1 / std\<close>.\<close>

definition normalize_px :: "real list \<Rightarrow> real list \<Rightarrow> real list \<Rightarrow> real list" where
  "normalize_px m s p = map (\<lambda>(x, mu, sd). (x - mu) * (1 / sd)) (zip p (zip m s))"

text \<open>
  \<^verbatim>\<open>mmcv.imnormalize(img, mean, std, to_rgb)\<close>, a routine of the external image
  library: a float32 copy of the image, the channel order reversed when \<^verbatim>\<open>to_rgb\<close>
  is set (the colour conversion accepts three-channel pixels only), then the mean
  subtracted and the result multiplied by the inverse of std, channel by channel.
  OpenCV rejects a mean or std that has not one entry for each channel.
  numpy computes \<^verbatim>\<open>1 / std\<close> as inf for a zero std and goes on; a real number cannot
  hold that value, so the model reports \<^verbatim>\<open>NonFinite\<close> there.
\<close>

definition imnormalize :: "image \<Rightarrow> real list \<Rightarrow> real list \<Rightarrow> bool \<Rightarrow> error + image" where
  "imnormalize img m s rgb =
     (if list_ex (\<lambda>sd. sd = 0) s then Inl NonFinite
      else if rgb \<and> \<not> list_all (list_all (\<lambda>p. length p = 3)) (pix img) then Inl CvError
      else if length m \<noteq> channels img \<or> length s \<noteq> channels img then Inl CvError
      else Inr \<lparr>dtype = Float32,
                pix = map (map (\<lambda>p. normalize_px m s (if rgb then rev p else p))) (pix img)\<rparr>)"

definition NormalizeMultiviewImage_call :: "norm_cfg \<Rightarrow> results \<Rightarrow> error + results" where
  "NormalizeMultiviewImage_call cfg results =
     (case get_imgs results ''img'' of
        Inl e \<Rightarrow> Inl e
      | Inr imgs \<Rightarrow>
        (case map_err (\<lambda>img. imnormalize img (mean cfg) (std cfg) (to_rgb cfg)) imgs of
           Inl e \<Rightarrow> Inl e
         | Inr outs \<Rightarrow>
             Inr (results(''img'' \<mapsto> Imgs outs,
                          ''img_norm_cfg'' \<mapsto> NormCfg (mean cfg) (std cfg) (to_rgb cfg)))))"

text \<open>
  The inverse map the round-trip property speaks of is not part of the source file.
  It is written here from the property's words: every pixel is multiplied by std and
  mean is added, channel by channel, and the channel order is swapped back.
\<close>

definition denormalize_px :: "real list \<Rightarrow> real list \<Rightarrow> real list \<Rightarrow> real list" where
  "denormalize_px m s p = map (\<lambda>(x, mu, sd). x * sd + mu) (zip p (zip m s))"

definition denormalize_spec :: "image \<Rightarrow> real list \<Rightarrow> real list \<Rightarrow> bool \<Rightarrow> image" where
  "denormalize_spec img m s rgb =
     \<lparr>dtype = Float32,
      pix = map (map (\<lambda>p. let q = denormalize_px m s p in if rgb then rev q else q)) (pix img)\<rparr>"

section \<open>RandomFlip\<close>

text \<open>\<^verbatim>\<open>mmcv.imflip(img)\<close> with the default direction, horizontal: the library
  returns \<^verbatim>\<open>np.flip(img, axis=1)\<close>, every row reversed.\<close>

definition imflip :: "image \<Rightarrow> image" where
  "imflip img = img\<lparr>pix := map rev (pix img)\<rparr>"

text \<open>
  \<^verbatim>\<open>RandomFlip.__call__\<close>. The argument \<open>r\<close> is the value \<^verbatim>\<open>random.random()\<close>
  returns, a number of the interval [0, 1). The list \<^verbatim>\<open>results['img']\<close> is read only
  when the decision is to flip.
\<close>

definition RandomFlip_call :: "real \<Rightarrow> real \<Rightarrow> results \<Rightarrow> error + results" where
  "RandomFlip_call prob r results =
     (let flip = (r < prob) in
      if flip then
        (case get_imgs results ''img'' of
           Inl e \<Rightarrow> Inl e
         | Inr imgs \<Rightarrow> Inr (results(''img'' \<mapsto> Imgs (map imflip imgs), ''flip'' \<mapsto> PBool flip)))
      else Inr (results(''flip'' \<mapsto> PBool flip)))"

section \<open>PhotoMetricDistortionMultiViewImage\<close>

record pmd_cfg =
  brightness_delta :: real
  contrast_lower :: real
  contrast_upper :: real
  saturation_lower :: real
  saturation_upper :: real
  hue_delta :: real
  use_swap_channel :: bool

definition PhotoMetricDistortion_init ::
  "real \<Rightarrow> real \<times> real \<Rightarrow> real \<times> real \<Rightarrow> real \<Rightarrow> bool \<Rightarrow> pmd_cfg" where
  "PhotoMetricDistortion_init bd contrast_range saturation_range hdelta swap =
     \<lparr>brightness_delta = bd,
      contrast_lower = fst contrast_range, contrast_upper = snd contrast_range,
      saturation_lower = fst saturation_range, saturation_upper = snd saturation_range,
      hue_delta = hdelta, use_swap_channel = swap\<rparr>"

text \<open>
  The random numbers one image consumes, in the order of the loop body: each
  \<open>r_\<close> field is the value of a \<^verbatim>\<open>random.randint(2)\<close> (0 or 1), each \<open>u_\<close> field the
  value of the \<^verbatim>\<open>random.uniform\<close> that follows it, and \<open>u_perm\<close> the value of
  \<^verbatim>\<open>random.permutation(3)\<close>. Only one of the two contrast positions runs, so one pair
  of contrast draws is enough.
\<close>

record draws =
  r_brightness :: nat
  u_brightness :: real
  r_mode :: nat
  r_contrast :: nat
  u_contrast :: real
  r_saturation :: nat
  u_saturation :: real
  r_hue :: nat
  u_hue :: real
  r_swap :: nat
  u_perm :: "nat list"

text \<open>What the random source can return under a configuration: \<^verbatim>\<open>randint(2)\<close> is 0
  or 1, \<^verbatim>\<open>uniform(a, b)\<close> lies between its two arguments, and \<^verbatim>\<open>permutation(3)\<close>
  is an arrangement of 0, 1, 2.\<close>

definition in_uniform :: "real \<Rightarrow> real \<Rightarrow> real \<Rightarrow> bool" where
  "in_uniform a b u = (min a b \<le> u \<and> u \<le> max a b)"

definition valid_draws :: "pmd_cfg \<Rightarrow> draws \<Rightarrow> bool" where
  "valid_draws cfg d =
     (r_brightness d < 2 \<and> r_mode d < 2 \<and> r_contrast d < 2 \<and> r_saturation d < 2 \<and>
      r_hue d < 2 \<and> r_swap d < 2 \<and>
      in_uniform (- brightness_delta cfg) (brightness_delta cfg) (u_brightness d) \<and>
      in_uniform (contrast_lower cfg) (contrast_upper cfg) (u_contrast d) \<and>
      in_uniform (saturation_lower cfg) (saturation_upper cfg) (u_saturation d) \<and>
      in_uniform (- hue_delta cfg) (hue_delta cfg) (u_hue d) \<and>
      length (u_perm d) = 3 \<and> set (u_perm d) = {0, 1, 2})"

definition add_all :: "real \<Rightarrow> image \<Rightarrow> image" where
  "add_all delta img = img\<lparr>pix := map (map (map (\<lambda>v. v + delta))) (pix img)\<rparr>"

definition mul_all :: "real \<Rightarrow> image \<Rightarrow> image" where
  "mul_all alpha img = img\<lparr>pix := map (map (map (\<lambda>v. v * alpha))) (pix img)\<rparr>"

text \<open>
  \<^verbatim>\<open>mmcv.bgr2hsv\<close> and \<^verbatim>\<open>mmcv.hsv2bgr\<close> call the external library's colour
  conversion. What it computes for one pixel is a parameter \<open>f\<close> of the model; the
  conversion accepts a non-empty image of three-channel pixels only and returns an array
  of the same shape and element type.
\<close>

definition cvt_color :: "(real \<times> real \<times> real \<Rightarrow> real \<times> real \<times> real) \<Rightarrow> image \<Rightarrow> error + image" where
  "cvt_color f img =
     (if height img = 0 \<or> width img = 0 then Inl CvError
      else if \<not> list_all (list_all (\<lambda>p. length p = 3)) (pix img) then Inl CvError
      else Inr (img\<lparr>pix :=
             map (map (\<lambda>p. case f (p ! 0, p ! 1, p ! 2) of (a, b, c) \<Rightarrow> [a, b, c])) (pix img)\<rparr>))"

text \<open>\<^verbatim>\<open>img[..., k] = g(img[..., k])\<close>, used on the converted image, whose pixels
  have three channels.\<close>

definition on_channel :: "nat \<Rightarrow> (real \<Rightarrow> real) \<Rightarrow> image \<Rightarrow> image" where
  "on_channel k g img = img\<lparr>pix := map (map (\<lambda>p. p[k := g (p ! k)])) (pix img)\<rparr>"

text \<open>The three statements of the hue step on one hue value \<open>h\<close> with offset \<open>u\<close>:
  \<^verbatim>\<open>h += u\<close>, then \<^verbatim>\<open>h -= 360\<close> where \<^verbatim>\<open>h > 360\<close>, then \<^verbatim>\<open>h += 360\<close> where
  \<^verbatim>\<open>h < 0\<close>.\<close>

definition hue_shift :: "real \<Rightarrow> real \<Rightarrow> real" where
  "hue_shift u h =
     (let h1 = h + u;
          h2 = (if h1 > 360 then h1 - 360 else h1);
          h3 = (if h2 < 0 then h2 + 360 else h2)
      in h3)"

text \<open>\<^verbatim>\<open>img[..., perm]\<close>: numpy raises on an index that is not a channel.\<close>

definition swap_channels :: "nat list \<Rightarrow> image \<Rightarrow> error + image" where
  "swap_channels perm img =
     (if list_all (list_all (\<lambda>p. list_all (\<lambda>i. i < length p) perm)) (pix img)
      then Inr (img\<lparr>pix := map (map (\<lambda>p. map (\<lambda>i. p ! i) perm)) (pix img)\<rparr>)
      else Inl IndexError)"

text \<open>
  The body of the loop of \<^verbatim>\<open>PhotoMetricDistortionMultiViewImage.__call__\<close> for one
  image, in the three stretches the two colour conversions cut it into. (The in-place
  updates before the first conversion also change the caller's array; the model returns
  the new image only.)
\<close>

text \<open>Random brightness, then random contrast when \<^verbatim>\<open>mode == 1\<close>.\<close>

definition pre_hsv :: "draws \<Rightarrow> image \<Rightarrow> image" where
  "pre_hsv d img =
     (let img1 = (if r_brightness d \<noteq> 0 then add_all (u_brightness d) img else img);
          img2 = (if r_mode d = 1
                  then (if r_contrast d \<noteq> 0 then mul_all (u_contrast d) img1 else img1)
                  else img1)
      in img2)"

text \<open>Random saturation on channel 1, then random hue on channel 0.\<close>

definition hsv_steps :: "draws \<Rightarrow> image \<Rightarrow> image" where
  "hsv_steps d img3 =
     (let img4 = (if r_saturation d \<noteq> 0
                  then on_channel 1 (\<lambda>s. s * u_saturation d) img3 else img3);
          img5 = (if r_hue d \<noteq> 0 then on_channel 0 (hue_shift (u_hue d)) img4 else img4)
      in img5)"

text \<open>Random contrast when \<^verbatim>\<open>mode == 0\<close>, then the random swap of the channels.\<close>

definition post_hsv :: "pmd_cfg \<Rightarrow> draws \<Rightarrow> image \<Rightarrow> error + image" where
  "post_hsv cfg d img6 =
     (let img7 = (if r_mode d = 0
                  then (if r_contrast d \<noteq> 0 then mul_all (u_contrast d) img6 else img6)
                  else img6)
      in if r_swap d \<noteq> 0 \<and> use_swap_channel cfg
         then swap_channels (u_perm d) img7
         else Inr img7)"

definition distort_img ::
  "pmd_cfg \<Rightarrow> (real \<times> real \<times> real \<Rightarrow> real \<times> real \<times> real) \<Rightarrow>
   (real \<times> real \<times> real \<Rightarrow> real \<times> real \<times> real) \<Rightarrow> draws \<Rightarrow> image \<Rightarrow> error + image" where
  "distort_img cfg bgr2hsv hsv2bgr d img =
     (if dtype img \<noteq> Float32 then Inl AssertionError
      else
        case cvt_color bgr2hsv (pre_hsv d img) of
          Inl e \<Rightarrow> Inl e
        | Inr img3 \<Rightarrow>
            (case cvt_color hsv2bgr (hsv_steps d img3) of
               Inl e \<Rightarrow> Inl e
             | Inr img6 \<Rightarrow> post_hsv cfg d img6))"

text \<open>\<^verbatim>\<open>enumerate(xs)\<close>.\<close>

definition enumerate_list :: "'a list \<Rightarrow> (nat \<times> 'a) list" where
  "enumerate_list xs = zip [0..<length xs] xs"

text \<open>The call: \<open>ds i\<close> holds the draws the i-th image consumes.\<close>

definition PhotoMetricDistortion_call ::
  "pmd_cfg \<Rightarrow> (real \<times> real \<times> real \<Rightarrow> real \<times> real \<times> real) \<Rightarrow>
   (real \<times> real \<times> real \<Rightarrow> real \<times> real \<times> real) \<Rightarrow> (nat \<Rightarrow> draws) \<Rightarrow> results \<Rightarrow> error + results" where
  "PhotoMetricDistortion_call cfg bgr2hsv hsv2bgr ds results =
     (case get_imgs results ''img'' of
        Inl e \<Rightarrow> Inl e
      | Inr imgs \<Rightarrow>
        (case map_err (\<lambda>(i, img). distort_img cfg bgr2hsv hsv2bgr (ds i) img)
                (enumerate_list imgs) of
           Inl e \<Rightarrow> Inl e
         | Inr new_imgs \<Rightarrow> Inr (results(''img'' \<mapsto> Imgs new_imgs))))"

section \<open>RandomScaleImageMultiViewImage\<close>













section \<open>Verified properties\<close>

subsection \<open>The constructor of PadMultiViewImage\<close>

text \<open>
  C2, as stated, fails on the code: a call that gives both a fixed size and a size
  divisor does not fail. The constructor discards the divisor and keeps the size.
\<close>

theorem PadMultiViewImage_init_both_given:
  "PadMultiViewImage_init (Some (900, 1600)) (Some 32) 0
     = Inr \<lparr>pad_size = Some (900, 1600), size_divisor = None, pad_val = 0\<rparr> \<and>
   \<not> isl (PadMultiViewImage_init (Some (900, 1600)) (Some 32) 0)"
  by (simp add: PadMultiViewImage_init_def)

text \<open>
  C2 (amended): the constructor of PadMultiViewImage fails, with an assertion error, if
  and only if neither a fixed size nor a size divisor is given. In every other case it
  succeeds, also when both are given: the object keeps the size when one is given and
  the divisor otherwise, so exactly one of its two fields is set.
\<close>

theorem PadMultiViewImage_init_fails_iff_neither:
  "(PadMultiViewImage_init sz sd pv = Inl AssertionError) = (sz = None \<and> sd = None) \<and>
   ((\<exists>cfg. PadMultiViewImage_init sz sd pv = Inr cfg) = (sz \<noteq> None \<or> sd \<noteq> None)) \<and>
   (\<forall>cfg. PadMultiViewImage_init sz sd pv = Inr cfg \<longrightarrow>
      pad_size cfg = sz \<and> size_divisor cfg = (if sz = None then sd else None) \<and>
      pad_val cfg = pv \<and> (pad_size cfg = None) \<noteq> (size_divisor cfg = None))"
  by (auto simp: PadMultiViewImage_init_def Let_def)

theorem PadMultiViewImage_init_divisor_only:
  "PadMultiViewImage_init None (Some 32) 0 \<noteq> Inl AssertionError \<and>
   (\<exists>cfg. PadMultiViewImage_init None (Some 32) 0 = Inr cfg) \<and>
   PadMultiViewImage_init None None 0 = Inl AssertionError"
  using PadMultiViewImage_init_fails_iff_neither [of None "Some 32" 0]
    PadMultiViewImage_init_fails_iff_neither [of None None 0]
  by simp

subsection \<open>The hue step of the photometric distortion\<close>




subsection \<open>RandomFlip\<close>

lemma imflip_imflip: "imflip (imflip img) = img"
  by (simp add: imflip_def comp_def)

text \<open>
  C4: RandomFlip takes one decision per call, \<^verbatim>\<open>random.random() < prob\<close>, shared by
  all views, and records it under the key 'flip'; every image is mirrored when the
  decision is true and none otherwise. With probability 0 no image is mirrored, with
  probability 1 every image is, and mirroring twice gives the original images back.
\<close>

theorem RandomFlip_single_decision:
  assumes r: "0 \<le> r" "r < 1" and img: "results ''img'' = Some (Imgs imgs)"
  shows "\<exists>res'. RandomFlip_call prob r results = Inr res' \<and>
           res' ''flip'' = Some (PBool (r < prob)) \<and>
           res' ''img'' = Some (Imgs (if r < prob then map imflip imgs else imgs)) \<and>
           (\<forall>k. k \<noteq> ''img'' \<and> k \<noteq> ''flip'' \<longrightarrow> res' k = results k) \<and>
           (prob = 0 \<longrightarrow> res' ''flip'' = Some (PBool False) \<and> res' ''img'' = Some (Imgs imgs)) \<and>
           (prob = 1 \<longrightarrow> res' ''flip'' = Some (PBool True) \<and>
                         res' ''img'' = Some (Imgs (map imflip imgs))) \<and>
           map imflip (map imflip imgs) = imgs"
  using r img
  by (auto simp: RandomFlip_call_def get_imgs_def Let_def imflip_imflip comp_def)

theorem RandomFlip_single_decision_example:
  "\<exists>res'. RandomFlip_call 1 (1 / 2)
            (Map.empty(''img'' \<mapsto> Imgs [\<lparr>dtype = Float32, pix = [[[1, 2, 3], [4, 5, 6]]]\<rparr>]))
          = Inr res' \<and>
     res' ''flip'' = Some (PBool True) \<and>
     res' ''img'' = Some (Imgs [\<lparr>dtype = Float32, pix = [[[4, 5, 6], [1, 2, 3]]]\<rparr>])"
  using RandomFlip_single_decision
    [of "1 / 2" "Map.empty(''img'' \<mapsto> Imgs [\<lparr>dtype = Float32, pix = [[[1, 2, 3], [4, 5, 6]]]\<rparr>])"
        "[\<lparr>dtype = Float32, pix = [[[1, 2, 3], [4, 5, 6]]]\<rparr>]" 1]
  by (auto simp: imflip_def)

subsection \<open>Padding\<close>

lemma map_err_total:
  "(\<And>x. x \<in> set xs \<Longrightarrow> f x = Inr (g x)) \<Longrightarrow> map_err f xs = Inr (map g xs)"
  by (induction xs) auto

lemma wf_image_row: "wf_image img \<Longrightarrow> y < height img \<Longrightarrow> length (pix img ! y) = width img"
  by (simp add: wf_image_def height_def list_all_length)

lemma wf_image_px:
  "wf_image img \<Longrightarrow> y < height img \<Longrightarrow> x < width img \<Longrightarrow> length (pixel img y x) = channels img"
  by (simp add: wf_image_def height_def list_all_length pixel_def)

lemma impad_height: "height (impad img (th, tw) v) = max th (height img)"
  by (simp add: impad_def height_def Let_def)

lemma impad_width:
  assumes "wf_image img"
  shows "width (impad img (th, tw) v) = max tw (width img)"
proof -
  from assms obtain r rs where p: "pix img = r # rs"
    by (cases "pix img") (auto simp: wf_image_def height_def)
  then show ?thesis by (simp add: impad_def width_def Let_def)
qed

lemma impad_pixel_inside:
  assumes "wf_image img" "y < height img" "x < width img"
  shows "pixel (impad img (th, tw) v) y x = pixel img y x"
  using assms wf_image_row [OF assms(1,2)]
  by (simp add: impad_def pixel_def Let_def height_def nth_append)

lemma impad_pixel_outside:
  assumes wf: "wf_image img"
    and y: "y < max th (height img)" and x: "x < max tw (width img)"
    and out: "height img \<le> y \<or> width img \<le> x"
  shows "pixel (impad img (th, tw) v) y x = fill_px (channels img) v"
proof (cases "y < height img")
  case True
  with out have wx: "width img \<le> x" by simp
  have len: "length (pix img ! y) = width img" using wf True by (rule wf_image_row)
  from x wx have "x - width img < tw - width img" by simp
  with True len wx show ?thesis
    by (simp add: impad_def pixel_def Let_def height_def nth_append)
next
  case False
  with y have "y - height img < th - height img" by simp
  moreover from x have "x < width img + (tw - width img)" by simp
  ultimately show ?thesis using False
    by (simp add: impad_def pixel_def Let_def height_def nth_append)
qed


lemma impad_dtype: "dtype (impad img sh v) = dtype img"
  by (simp add: impad_def Let_def)

lemma pad_key_ok:
  assumes "side_ok results k" "pad_list cfg = (\<lambda>imgs. Inr (g imgs))"
  shows "\<exists>v. pad_key cfg results k = Inr v"
  using assms by (auto simp: side_ok_def pad_key_def get_imgs_def split: option.splits pyval.splits)

lemma put_opt_other: "k \<noteq> j \<Longrightarrow> put_opt results k v j = results j"
  by (simp add: put_opt_def split: option.splits)

lemma pad_img_img:
  assumes mode: "pad_size cfg \<noteq> None \<or> size_divisor cfg \<noteq> None"
    and img: "get_imgs results ''img'' = Inr imgs"
    and pl: "\<And>xs. pad_list cfg xs = Inr (map g xs)"
    and side: "side_ok results ''extra_img''" "side_ok results ''ori_img''"
  shows "\<exists>res'. PadMultiViewImage_call cfg results = Inr res' \<and>
           res' ''img'' = Some (Imgs (map g imgs)) \<and>
           res' ''pad_fixed_size'' = Some (opt_val PSize (pad_size cfg)) \<and>
           res' ''pad_size_divisor'' = Some (opt_val PInt (size_divisor cfg))"
proof -
  obtain e where e: "pad_key cfg results ''extra_img'' = Inr e"
    using pad_key_ok [OF side(1), of cfg "map g"] pl by auto
  obtain o' where o: "pad_key cfg results ''ori_img'' = Inr o'"
    using pad_key_ok [OF side(2), of cfg "map g"] pl by auto
  show ?thesis using mode img e o
    by (auto simp: PadMultiViewImage_call_def pad_img_def pl put_opt_other)
qed


lemma pad_list_divisor:
  assumes "pad_size cfg = None" "size_divisor cfg = Some d" "0 < d"
  shows "pad_list cfg xs =
     Inr (map (\<lambda>img. impad img (nat \<lceil>real (height img) / real d\<rceil> * d,
                                   nat \<lceil>real (width img) / real d\<rceil> * d) (pad_val cfg)) xs)"
  using assms by (simp add: pad_list_def impad_to_multiple_def Let_def map_err_total)

lemma ceil_mult:
  assumes "0 < d"
  shows "n \<le> nat \<lceil>real n / real d\<rceil> * d \<and> d dvd nat \<lceil>real n / real d\<rceil> * d \<and>
         (\<forall>m. d dvd m \<and> n \<le> m \<longrightarrow> nat \<lceil>real n / real d\<rceil> * d \<le> m)"
proof (intro conjI allI impI)
  have "real n / real d * real d \<le> real_of_int \<lceil>real n / real d\<rceil> * real d"
    by (intro mult_right_mono) simp_all
  then have "real n \<le> real_of_int \<lceil>real n / real d\<rceil> * real d"
    using assms by simp
  moreover have "0 \<le> \<lceil>real n / real d\<rceil>"
  proof -
    have "(- 1::real) < 0" by simp
    also have "0 \<le> real n / real d" by simp
    finally show ?thesis by (simp only: zero_le_ceiling)
  qed
  ultimately have "real n \<le> real (nat \<lceil>real n / real d\<rceil> * d)" by simp
  then show "n \<le> nat \<lceil>real n / real d\<rceil> * d" by linarith
next
  show "d dvd nat \<lceil>real n / real d\<rceil> * d" by simp
next
  fix m assume "d dvd m \<and> n \<le> m"
  then obtain k where k: "m = d * k" and nm: "n \<le> m" by (auto simp: dvd_def)
  have "real n / real d \<le> real k" using nm k assms by (simp add: pos_divide_le_eq mult.commute flip: of_nat_mult)
  then have "\<lceil>real n / real d\<rceil> \<le> int k" by (simp add: ceiling_le_iff)
  then have "nat \<lceil>real n / real d\<rceil> \<le> k" by linarith
  then show "nat \<lceil>real n / real d\<rceil> * d \<le> m" using k by (simp add: mult.commute)
qed



lemma PadMultiViewImage_init_divisor:
  "PadMultiViewImage_init None (Some d) pv = Inr cfg \<Longrightarrow>
     pad_size cfg = None \<and> size_divisor cfg = Some d \<and> pad_val cfg = pv"
  by (auto simp: PadMultiViewImage_init_def)






text \<open>
  In the divisor mode, for every positive divisor d, each spatial dimension of an
  output image is d * ceil(original / d), the smallest multiple of d that is greater
  than or equal to the original dimension; the original pixels are kept, and a pixel of
  the padded region holds the fill value in channel 0 and 0 in the other channels.
\<close>

lemma PadMultiViewImage_divisor_sizes:
  assumes cfg: "PadMultiViewImage_init None (Some d) pv = Inr cfg"
    and d: "0 < d"
    and img: "get_imgs results ''img'' = Inr imgs"
    and wf: "list_all (\<lambda>img. wf_image img \<and> channels img \<le> 4) imgs"
    and side: "side_ok results ''extra_img''" "side_ok results ''ori_img''"
  shows "\<exists>res' outs.
     PadMultiViewImage_call cfg results = Inr res' \<and>
     res' ''img'' = Some (Imgs outs) \<and>
     res' ''pad_size_divisor'' = Some (PInt d) \<and>
     length outs = length imgs \<and>
     (\<forall>i<length imgs.
        height (outs ! i) = d * nat \<lceil>real (height (imgs ! i)) / real d\<rceil> \<and>
        width (outs ! i) = d * nat \<lceil>real (width (imgs ! i)) / real d\<rceil> \<and>
        d dvd height (outs ! i) \<and> height (imgs ! i) \<le> height (outs ! i) \<and>
        (\<forall>m. d dvd m \<and> height (imgs ! i) \<le> m \<longrightarrow> height (outs ! i) \<le> m) \<and>
        d dvd width (outs ! i) \<and> width (imgs ! i) \<le> width (outs ! i) \<and>
        (\<forall>m. d dvd m \<and> width (imgs ! i) \<le> m \<longrightarrow> width (outs ! i) \<le> m) \<and>
        (\<forall>y x. y < height (imgs ! i) \<and> x < width (imgs ! i) \<longrightarrow>
           pixel (outs ! i) y x = pixel (imgs ! i) y x) \<and>
        (\<forall>y x. y < height (outs ! i) \<and> x < width (outs ! i) \<and>
               (height (imgs ! i) \<le> y \<or> width (imgs ! i) \<le> x) \<longrightarrow>
           pixel (outs ! i) y x = fill_px (channels (imgs ! i)) pv))"
proof -
  let ?up = "\<lambda>n. nat \<lceil>real n / real d\<rceil> * d"
  let ?g = "\<lambda>img. impad img (?up (height img), ?up (width img)) pv"
  from PadMultiViewImage_init_divisor [OF cfg]
  have c: "pad_size cfg = None" "size_divisor cfg = Some d" "pad_val cfg = pv" by simp_all
  have pl: "\<And>xs. pad_list cfg xs = Inr (map ?g xs)"
    using pad_list_divisor [OF c(1,2) d] c(3) by simp
  from pad_img_img [OF _ img pl side] c
  obtain res' where r: "PadMultiViewImage_call cfg results = Inr res'"
      "res' ''img'' = Some (Imgs (map ?g imgs))"
      "res' ''pad_size_divisor'' = Some (PInt d)"
    by (auto simp: opt_val_def)
  have q: "\<forall>i<length imgs.
        height (map ?g imgs ! i) = d * nat \<lceil>real (height (imgs ! i)) / real d\<rceil> \<and>
        width (map ?g imgs ! i) = d * nat \<lceil>real (width (imgs ! i)) / real d\<rceil> \<and>
        d dvd height (map ?g imgs ! i) \<and> height (imgs ! i) \<le> height (map ?g imgs ! i) \<and>
        (\<forall>m. d dvd m \<and> height (imgs ! i) \<le> m \<longrightarrow> height (map ?g imgs ! i) \<le> m) \<and>
        d dvd width (map ?g imgs ! i) \<and> width (imgs ! i) \<le> width (map ?g imgs ! i) \<and>
        (\<forall>m. d dvd m \<and> width (imgs ! i) \<le> m \<longrightarrow> width (map ?g imgs ! i) \<le> m) \<and>
        (\<forall>y x. y < height (imgs ! i) \<and> x < width (imgs ! i) \<longrightarrow>
           pixel (map ?g imgs ! i) y x = pixel (imgs ! i) y x) \<and>
        (\<forall>y x. y < height (map ?g imgs ! i) \<and> x < width (map ?g imgs ! i) \<and>
               (height (imgs ! i) \<le> y \<or> width (imgs ! i) \<le> x) \<longrightarrow>
           pixel (map ?g imgs ! i) y x = fill_px (channels (imgs ! i)) pv)"
  proof (intro allI impI)
    fix i assume i: "i < length imgs"
    with wf have w: "wf_image (imgs ! i)" by (simp add: list_all_length)
    let ?a = "imgs ! i"
    note ch = ceil_mult [OF d, of "height ?a"] and cw = ceil_mult [OF d, of "width ?a"]
    have h: "height (?g ?a) = ?up (height ?a)" using ch by (simp add: impad_height max_def)
    have wd: "width (?g ?a) = ?up (width ?a)" using cw w by (simp add: impad_width max_def)
    have ins: "\<forall>y x. y < height ?a \<and> x < width ?a \<longrightarrow> pixel (?g ?a) y x = pixel ?a y x"
      using w by (simp add: impad_pixel_inside)
    have outs: "\<forall>y x. y < height (?g ?a) \<and> x < width (?g ?a) \<and>
               (height ?a \<le> y \<or> width ?a \<le> x) \<longrightarrow>
           pixel (?g ?a) y x = fill_px (channels ?a) pv"
      using w by (simp add: impad_height impad_width impad_pixel_outside)
    have g: "map ?g imgs ! i = ?g ?a" using i by simp
    show "height (map ?g imgs ! i) = d * nat \<lceil>real (height (imgs ! i)) / real d\<rceil> \<and>
        width (map ?g imgs ! i) = d * nat \<lceil>real (width (imgs ! i)) / real d\<rceil> \<and>
        d dvd height (map ?g imgs ! i) \<and> height (imgs ! i) \<le> height (map ?g imgs ! i) \<and>
        (\<forall>m. d dvd m \<and> height (imgs ! i) \<le> m \<longrightarrow> height (map ?g imgs ! i) \<le> m) \<and>
        d dvd width (map ?g imgs ! i) \<and> width (imgs ! i) \<le> width (map ?g imgs ! i) \<and>
        (\<forall>m. d dvd m \<and> width (imgs ! i) \<le> m \<longrightarrow> width (map ?g imgs ! i) \<le> m) \<and>
        (\<forall>y x. y < height (imgs ! i) \<and> x < width (imgs ! i) \<longrightarrow>
           pixel (map ?g imgs ! i) y x = pixel (imgs ! i) y x) \<and>
        (\<forall>y x. y < height (map ?g imgs ! i) \<and> x < width (map ?g imgs ! i) \<and>
               (height (imgs ! i) \<le> y \<or> width (imgs ! i) \<le> x) \<longrightarrow>
           pixel (map ?g imgs ! i) y x = fill_px (channels (imgs ! i)) pv)"
      unfolding g h wd using ch cw ins outs unfolding h wd
      by (simp add: mult.commute)
  qed
  have len: "length (map ?g imgs) = length imgs" by simp
  from r len q show ?thesis by blast
qed

text \<open>
  C6 holds for the dimensions and fails for the padded region: with the divisor 2 and
  the fill value 5, an image of one pixel with three channels is padded to 2 x 2, and
  the three added pixels are (5, 0, 0), not 5 in every channel.
\<close>

theorem PadMultiViewImage_divisor_fill_first_channel:
  "\<exists>cfg res'.
     PadMultiViewImage_init None (Some 2) 5 = Inr cfg \<and>
     PadMultiViewImage_call cfg
        (Map.empty(''img'' \<mapsto> Imgs [\<lparr>dtype = Float32, pix = [[[1, 2, 3]]]\<rparr>])) = Inr res' \<and>
     res' ''img'' = Some (Imgs [\<lparr>dtype = Float32,
                                 pix = [[[1, 2, 3], [5, 0, 0]], [[5, 0, 0], [5, 0, 0]]]\<rparr>])"
proof -
  have "\<lceil>1 / 2 :: real\<rceil> = 1" by (rule ceiling_unique) simp_all
  then show ?thesis
    by (simp add: PadMultiViewImage_init_def PadMultiViewImage_call_def pad_img_def get_imgs_def
        pad_list_def pad_key_def put_opt_def opt_val_def impad_to_multiple_def impad_def
        fill_px_def height_def width_def channels_def Let_def)
qed

subsection \<open>Normalization\<close>

lemma normalize_denormalize_px:
  assumes "length p = length m" "length m = length s" "0 \<notin> set s"
  shows "normalize_px m s (denormalize_px m s p) = p"
  using assms
proof (induction p m s rule: list_induct3)
  case Nil
  then show ?case by (simp add: normalize_px_def denormalize_px_def)
next
  case (Cons x xs y ys z zs)
  then show ?case by (simp add: normalize_px_def denormalize_px_def)
qed

lemma length_denormalize_px:
  "length p = length m \<Longrightarrow> length m = length s \<Longrightarrow> length (denormalize_px m s p) = length p"
  by (simp add: denormalize_px_def)

lemma length_normalize_px:
  "length p = length m \<Longrightarrow> length m = length s \<Longrightarrow> length (normalize_px m s p) = length p"
  by (simp add: normalize_px_def)

lemma normalize_px_nth:
  assumes "length p = length m" "length m = length s" "c < length p" "s ! c \<noteq> 0"
  shows "normalize_px m s p ! c = (p ! c - m ! c) / s ! c"
  using assms by (simp add: normalize_px_def)

lemma wf_image_all_px:
  assumes "wf_image img" "r \<in> set (pix img)" "p \<in> set r"
  shows "length p = channels img"
  using assms by (auto simp: wf_image_def list_all_iff)

lemma channels_map_px:
  assumes "wf_image img" "\<And>p. length p = channels img \<Longrightarrow> length (f p) = channels img"
  shows "channels \<lparr>dtype = t, pix = map (map f) (pix img)\<rparr> = channels img"
proof -
  from assms(1) obtain r rs where p: "pix img = r # rs"
    by (cases "pix img") (auto simp: wf_image_def height_def)
  with assms(1) obtain q qs where r: "r = q # qs"
    by (cases r) (auto simp: wf_image_def width_def)
  have "length q = channels img" using p r by (simp add: channels_def)
  then have "length (f q) = channels img" by (rule assms(2))
  moreover have "channels \<lparr>dtype = t, pix = map (map f) (pix img)\<rparr> = length (f q)"
    using p r by (simp add: channels_def)
  ultimately show ?thesis by simp
qed

lemma rev3_nth: "length p = 3 \<Longrightarrow> c < 3 \<Longrightarrow> rev p ! c = p ! (2 - c)"
  by (simp add: rev_nth)


lemma wf3_all:
  assumes "wf_image img" "channels img = 3"
  shows "list_all (list_all (\<lambda>p. length p = 3)) (pix img)"
  using wf_image_all_px [OF assms(1)] assms(2) by (auto simp: list_all_iff)

lemma imnormalize_eq:
  assumes wf: "wf_image img" and ch: "channels img = 3"
    and m: "length m = 3" and s: "length s = 3" and nz: "0 \<notin> set s"
  shows "imnormalize img m s rgb =
           Inr \<lparr>dtype = Float32,
                pix = map (map (\<lambda>p. normalize_px m s (if rgb then rev p else p))) (pix img)\<rparr>"
proof -
  have "\<not> list_ex (\<lambda>sd. sd = 0) s" using nz by (auto simp: list_ex_iff)
  then show ?thesis using wf3_all [OF wf ch] ch m s by (simp add: imnormalize_def)
qed

lemma imnormalize_pixel:
  assumes wf: "wf_image img" and ch: "channels img = 3"
    and m: "length m = 3" and s: "length s = 3" and nz: "0 \<notin> set s"
    and out: "imnormalize img m s rgb = Inr out"
  shows "dtype out = Float32 \<and> height out = height img \<and> width out = width img \<and>
           (\<forall>y x c. y < height img \<and> x < width img \<and> c < 3 \<longrightarrow>
              pixel out y x ! c
                = (pixel img y x ! (if rgb then 2 - c else c) - m ! c) / s ! c)"
proof -
  let ?f = "\<lambda>p. normalize_px m s (if rgb then rev p else p)"
  have o: "out = \<lparr>dtype = Float32, pix = map (map ?f) (pix img)\<rparr>"
    using imnormalize_eq [OF wf ch m s nz, of rgb] out by simp
  from wf obtain r rs where p: "pix img = r # rs"
    by (cases "pix img") (auto simp: wf_image_def height_def)
  have h: "height out = height img" by (simp add: o height_def)
  have w: "width out = width img" using p by (simp add: o width_def)
  have f: "\<forall>y x c. y < height img \<and> x < width img \<and> c < 3 \<longrightarrow>
              pixel out y x ! c
                = (pixel img y x ! (if rgb then 2 - c else c) - m ! c) / s ! c"
  proof (intro allI impI)
    fix y x c :: nat assume a: "y < height img \<and> x < width img \<and> c < 3"
    then have y: "y < length (pix img)" and c: "c < 3" by (simp_all add: height_def)
    have row: "length (pix img ! y) = width img"
      using wf a by (simp add: wf_image_row)
    with a have x: "x < length (pix img ! y)" by simp
    have l3: "length (pixel img y x) = 3"
      using wf_image_px [OF wf, of y x] a ch by simp
    have sc: "s ! c \<noteq> 0" using nz s c by (metis nth_mem)
    have "pixel out y x = ?f (pixel img y x)" using y x by (simp add: o pixel_def)
    then show "pixel out y x ! c
                = (pixel img y x ! (if rgb then 2 - c else c) - m ! c) / s ! c"
      using l3 m s c sc by (simp add: normalize_px_nth rev3_nth)
  qed
  show ?thesis using h w f by (simp add: o)
qed

lemma imnormalize_denormalize:
  assumes wf: "wf_image img" and ch: "channels img = 3"
    and m: "length m = 3" and s: "length s = 3" and nz: "0 \<notin> set s"
  shows "imnormalize (denormalize_spec img m s rgb) m s rgb = Inr (img\<lparr>dtype := Float32\<rparr>)"
proof -
  let ?f = "\<lambda>p. normalize_px m s (if rgb then rev p else p)"
  let ?g = "\<lambda>p. let q = denormalize_px m s p in if rgb then rev q else q"
  have px: "\<And>r p. r \<in> set (pix img) \<Longrightarrow> p \<in> set r \<Longrightarrow> length p = 3"
    using wf_image_all_px [OF wf] ch by simp
  have nex: "\<not> list_ex (\<lambda>sd. sd = 0) s" using nz by (auto simp: list_ex_iff)
  have g3: "\<And>p. length p = 3 \<Longrightarrow> length (?g p) = 3"
    using m s by (simp add: Let_def length_denormalize_px)
  have dall3: "list_all (list_all (\<lambda>p. length p = 3)) (map (map ?g) (pix img))"
    using px g3 by (auto simp: list_all_iff)
  have dch: "channels (denormalize_spec img m s rgb) = 3"
    unfolding denormalize_spec_def using channels_map_px [OF wf, of ?g Float32] g3 ch by simp
  have rt: "\<And>p. length p = 3 \<Longrightarrow> ?f (?g p) = p"
    using m s nz by (simp add: Let_def normalize_denormalize_px)
  have "map (map (\<lambda>p. ?f (?g p))) (pix img) = pix img"
    using px rt by (intro map_idI) auto
  then have pixeq: "map (map ?f) (map (map ?g) (pix img)) = pix img"
    by (simp add: comp_def)
  show ?thesis
    using nex dall3 dch m s pixeq
    by (simp add: imnormalize_def denormalize_spec_def)
qed

text \<open>
  C7: NormalizeMultiviewImage maps every pixel to (pixel - mean) / std, channel by
  channel, after the reordering of the channels from BGR to RGB when that is asked for,
  and records the configuration; with the same mean and std (std without a zero) the
  map is invertible: the inverse map followed by the normalization gives the original
  image back. Over the real numbers the round trip is exact.
\<close>

theorem NormalizeMultiviewImage_formula_and_round_trip:
  assumes img: "get_imgs results ''img'' = Inr imgs"
    and wf: "list_all (\<lambda>img. wf_image img \<and> channels img = 3) imgs"
    and m: "length (mean cfg) = 3" and s: "length (std cfg) = 3" and nz: "0 \<notin> set (std cfg)"
  shows "\<exists>res' outs.
     NormalizeMultiviewImage_call cfg results = Inr res' \<and>
     res' ''img'' = Some (Imgs outs) \<and>
     res' ''img_norm_cfg'' = Some (NormCfg (mean cfg) (std cfg) (to_rgb cfg)) \<and>
     length outs = length imgs \<and>
     (\<forall>i<length imgs.
        dtype (outs ! i) = Float32 \<and>
        height (outs ! i) = height (imgs ! i) \<and> width (outs ! i) = width (imgs ! i) \<and>
        (\<forall>y x c. y < height (imgs ! i) \<and> x < width (imgs ! i) \<and> c < 3 \<longrightarrow>
           pixel (outs ! i) y x ! c
             = (pixel (imgs ! i) y x ! (if to_rgb cfg then 2 - c else c) - mean cfg ! c)
                 / std cfg ! c) \<and>
        imnormalize (denormalize_spec (imgs ! i) (mean cfg) (std cfg) (to_rgb cfg))
            (mean cfg) (std cfg) (to_rgb cfg)
          = Inr ((imgs ! i)\<lparr>dtype := Float32\<rparr>))"
proof -
  let ?n = "\<lambda>img. imnormalize img (mean cfg) (std cfg) (to_rgb cfg)"
  let ?g = "\<lambda>img. \<lparr>dtype = Float32,
       pix = map (map (\<lambda>p. normalize_px (mean cfg) (std cfg) (if to_rgb cfg then rev p else p)))
               (pix img)\<rparr>"
  have w: "\<And>img. img \<in> set imgs \<Longrightarrow> wf_image img \<and> channels img = 3"
    using wf by (simp add: list_all_iff)
  have each: "\<And>img. img \<in> set imgs \<Longrightarrow> ?n img = Inr (?g img)"
    using w imnormalize_eq [OF _ _ m s nz] by blast
  have all: "map_err ?n imgs = Inr (map ?g imgs)"
    using each by (rule map_err_total)
  let ?res = "results(''img'' \<mapsto> Imgs (map ?g imgs),
                      ''img_norm_cfg'' \<mapsto> NormCfg (mean cfg) (std cfg) (to_rgb cfg))"
  have call: "NormalizeMultiviewImage_call cfg results = Inr ?res"
    using img all by (simp add: NormalizeMultiviewImage_call_def)
  have q: "\<forall>i<length imgs.
        dtype (map ?g imgs ! i) = Float32 \<and>
        height (map ?g imgs ! i) = height (imgs ! i) \<and>
        width (map ?g imgs ! i) = width (imgs ! i) \<and>
        (\<forall>y x c. y < height (imgs ! i) \<and> x < width (imgs ! i) \<and> c < 3 \<longrightarrow>
           pixel (map ?g imgs ! i) y x ! c
             = (pixel (imgs ! i) y x ! (if to_rgb cfg then 2 - c else c) - mean cfg ! c)
                 / std cfg ! c) \<and>
        imnormalize (denormalize_spec (imgs ! i) (mean cfg) (std cfg) (to_rgb cfg))
            (mean cfg) (std cfg) (to_rgb cfg)
          = Inr ((imgs ! i)\<lparr>dtype := Float32\<rparr>)"
  proof (intro allI impI)
    fix i assume i: "i < length imgs"
    then have mem: "imgs ! i \<in> set imgs" by simp
    from w [OF mem] have wi: "wf_image (imgs ! i)" and ci: "channels (imgs ! i) = 3" by simp_all
    have gi: "map ?g imgs ! i = ?g (imgs ! i)" using i by simp
    note px = imnormalize_pixel [OF wi ci m s nz each [OF mem]]
    note rt = imnormalize_denormalize [OF wi ci m s nz, of "to_rgb cfg"]
    show "dtype (map ?g imgs ! i) = Float32 \<and>
        height (map ?g imgs ! i) = height (imgs ! i) \<and>
        width (map ?g imgs ! i) = width (imgs ! i) \<and>
        (\<forall>y x c. y < height (imgs ! i) \<and> x < width (imgs ! i) \<and> c < 3 \<longrightarrow>
           pixel (map ?g imgs ! i) y x ! c
             = (pixel (imgs ! i) y x ! (if to_rgb cfg then 2 - c else c) - mean cfg ! c)
                 / std cfg ! c) \<and>
        imnormalize (denormalize_spec (imgs ! i) (mean cfg) (std cfg) (to_rgb cfg))
            (mean cfg) (std cfg) (to_rgb cfg)
          = Inr ((imgs ! i)\<lparr>dtype := Float32\<rparr>)"
      unfolding gi using px rt by blast
  qed
  have r: "?res ''img'' = Some (Imgs (map ?g imgs))"
      "?res ''img_norm_cfg'' = Some (NormCfg (mean cfg) (std cfg) (to_rgb cfg))"
    by simp_all
  have len: "length (map ?g imgs) = length imgs" by simp
  from call r len q show ?thesis by blast
qed

theorem NormalizeMultiviewImage_example:
  "\<exists>res'. NormalizeMultiviewImage_call (NormalizeMultiviewImage_init [1, 2, 3] [2, 2, 2] True)
       (Map.empty(''img'' \<mapsto> Imgs [\<lparr>dtype = UInt8, pix = [[[10, 20, 30]]]\<rparr>])) = Inr res' \<and>
     res' ''img'' = Some (Imgs [\<lparr>dtype = Float32, pix = [[[29 / 2, 9, 7 / 2]]]\<rparr>]) \<and>
     imnormalize (denormalize_spec \<lparr>dtype = Float32, pix = [[[29 / 2, 9, 7 / 2]]]\<rparr> [1, 2, 3] [2, 2, 2] True)
        [1, 2, 3] [2, 2, 2] True = Inr \<lparr>dtype = Float32, pix = [[[29 / 2, 9, 7 / 2]]]\<rparr>"
proof -
  let ?cfg = "NormalizeMultiviewImage_init [1, 2, 3] [2, 2, 2] True"
  let ?a = "\<lparr>dtype = UInt8, pix = [[[10, 20, 30::real]]]\<rparr>"
  let ?b = "\<lparr>dtype = Float32, pix = [[[29 / 2, 9, 7 / 2::real]]]\<rparr>"
  have 1: "get_imgs (Map.empty(''img'' \<mapsto> Imgs [?a])) ''img'' = Inr [?a]"
    by (simp add: get_imgs_def)
  have 2: "list_all (\<lambda>img. wf_image img \<and> channels img = 3) [?a]"
    by (simp add: wf_image_def height_def width_def channels_def)
  have 3: "length (mean ?cfg) = 3" "length (std ?cfg) = 3" "0 \<notin> set (std ?cfg)"
    by (simp_all add: NormalizeMultiviewImage_init_def)
  have 4: "get_imgs (Map.empty(''img'' \<mapsto> Imgs [?b])) ''img'' = Inr [?b]"
    by (simp add: get_imgs_def)
  have 5: "list_all (\<lambda>img. wf_image img \<and> channels img = 3) [?b]"
    by (simp add: wf_image_def height_def width_def channels_def)
  from NormalizeMultiviewImage_formula_and_round_trip [OF 1 2 3] obtain res' where
    "NormalizeMultiviewImage_call ?cfg (Map.empty(''img'' \<mapsto> Imgs [?a])) = Inr res'" by blast
  moreover from this have "res' ''img'' = Some (Imgs [?b])"
    by (auto simp: NormalizeMultiviewImage_call_def NormalizeMultiviewImage_init_def get_imgs_def
        imnormalize_def channels_def normalize_px_def)
  moreover from NormalizeMultiviewImage_formula_and_round_trip [OF 4 5 3]
  have "imnormalize (denormalize_spec ?b [1, 2, 3] [2, 2, 2] True) [1, 2, 3] [2, 2, 2] True = Inr ?b"
    by (auto simp: NormalizeMultiviewImage_init_def)
  ultimately show ?thesis by blast
qed

subsection \<open>Photometric distortion\<close>

lemma shape_of_height: "height img = length (shape_of img)"
  by (simp add: height_def shape_of_def)

lemma shape_of_width: "width img = (case shape_of img of [] \<Rightarrow> 0 | r # _ \<Rightarrow> length r)"
  by (simp add: width_def shape_of_def split: list.splits)

lemma shape_of_channels:
  "channels img = (case shape_of img of [] \<Rightarrow> 0 | r # _ \<Rightarrow> (case r of [] \<Rightarrow> 0 | n # _ \<Rightarrow> n))"
  by (simp add: channels_def shape_of_def split: list.splits)

lemma shape_of_wf:
  "wf_image img =
     (0 < height img \<and> 0 < width img \<and>
      list_all (\<lambda>r. length r = width img \<and> list_all (\<lambda>n. n = channels img) r) (shape_of img))"
  by (simp add: wf_image_def shape_of_def list_all_iff)

lemma same_shape:
  assumes "shape_of a = shape_of b"
  shows "height a = height b" "width a = width b" "channels a = channels b"
    "wf_image a = wf_image b"
proof -
  show h: "height a = height b" using assms by (simp add: shape_of_height)
  show w: "width a = width b" using assms by (simp add: shape_of_width)
  show c: "channels a = channels b" using assms by (simp add: shape_of_channels)
  show "wf_image a = wf_image b" unfolding shape_of_wf h w c assms ..
qed

lemma all3_shape:
  "list_all (list_all (\<lambda>p. length p = 3)) (pix img) = list_all (list_all (\<lambda>n. n = 3)) (shape_of img)"
  by (simp add: shape_of_def list_all_iff)

lemma add_all_shape: "shape_of (add_all x img) = shape_of img" "dtype (add_all x img) = dtype img"
  by (simp_all add: add_all_def shape_of_def comp_def)

lemma mul_all_shape: "shape_of (mul_all x img) = shape_of img" "dtype (mul_all x img) = dtype img"
  by (simp_all add: mul_all_def shape_of_def comp_def)

lemma on_channel_shape:
  "shape_of (on_channel k g img) = shape_of img" "dtype (on_channel k g img) = dtype img"
  by (simp_all add: on_channel_def shape_of_def comp_def)

lemma cvt_color_shape:
  assumes "wf_image img" "channels img = 3"
  shows "\<exists>out. cvt_color f img = Inr out \<and> shape_of out = shape_of img \<and> dtype out = dtype img"
proof -
  have a: "list_all (list_all (\<lambda>p. length p = 3)) (pix img)" using assms by (rule wf3_all)
  have hw: "0 < height img" "0 < width img" using assms(1) by (simp_all add: wf_image_def)
  have "map (map (\<lambda>p. length (case f (p ! 0, p ! 1, p ! 2) of (a, b, c) \<Rightarrow> [a, b, c]))) (pix img)
        = map (map length) (pix img)"
    using a by (auto simp: list_all_iff split: prod.splits)
  then show ?thesis using a hw by (simp add: cvt_color_def shape_of_def comp_def)
qed

lemma swap_channels_shape:
  assumes "wf_image img" "channels img = 3" "length perm = 3" "set perm = {0, 1, 2}"
  shows "\<exists>out. swap_channels perm img = Inr out \<and> shape_of out = shape_of img \<and> dtype out = dtype img"
proof -
  have a: "\<And>r p. r \<in> set (pix img) \<Longrightarrow> p \<in> set r \<Longrightarrow> length p = 3"
    using wf_image_all_px [OF assms(1)] assms(2) by simp
  have ok: "list_all (list_all (\<lambda>p. list_all (\<lambda>i. i < length p) perm)) (pix img)"
    unfolding list_all_iff
  proof (intro ballI)
    fix r p i assume rp: "r \<in> set (pix img)" "p \<in> set r" and i: "i \<in> set perm"
    from rp have "length p = 3" by (rule a)
    moreover from i assms(4) have "i < 3" by auto
    ultimately show "i < length p" by simp
  qed
  have "\<forall>r\<in>set (pix img). \<forall>p\<in>set r. length perm = length p"
  proof (intro ballI)
    fix r p assume "r \<in> set (pix img)" "p \<in> set r"
    then have "length p = 3" by (rule a)
    then show "length perm = length p" using assms(3) by simp
  qed
  then show ?thesis using ok by (simp add: swap_channels_def shape_of_def comp_def)
qed


lemma distort_img_assert: "dtype img \<noteq> Float32 \<Longrightarrow> distort_img cfg f g d img = Inl AssertionError"
  by (simp add: distort_img_def)

lemma pre_hsv_shape: "shape_of (pre_hsv d img) = shape_of img" "dtype (pre_hsv d img) = dtype img"
  by (simp_all add: pre_hsv_def Let_def add_all_shape mul_all_shape)

lemma hsv_steps_shape:
  "shape_of (hsv_steps d img) = shape_of img" "dtype (hsv_steps d img) = dtype img"
  by (simp_all add: hsv_steps_def Let_def on_channel_shape)

lemma post_hsv_shape:
  assumes wf: "wf_image img" and ch: "channels img = 3" and v: "valid_draws cfg d"
  shows "\<exists>out. post_hsv cfg d img = Inr out \<and> shape_of out = shape_of img \<and> dtype out = dtype img"
proof -
  define img7 where
    "img7 = (if r_mode d = 0
             then (if r_contrast d \<noteq> 0 then mul_all (u_contrast d) img else img) else img)"
  have s7: "shape_of img7 = shape_of img" "dtype img7 = dtype img"
    by (simp_all add: img7_def mul_all_shape)
  have w7: "wf_image img7" "channels img7 = 3"
    using same_shape [OF s7(1)] wf ch by simp_all
  have p: "length (u_perm d) = 3" "set (u_perm d) = {0, 1, 2}"
    using v by (simp_all add: valid_draws_def)
  from swap_channels_shape [OF w7 p] obtain img8 where
    sw: "swap_channels (u_perm d) img7 = Inr img8"
    and s8: "shape_of img8 = shape_of img" "dtype img8 = dtype img"
    using s7 by auto
  have "post_hsv cfg d img =
          (if r_swap d \<noteq> 0 \<and> use_swap_channel cfg then Inr img8 else Inr img7)"
    unfolding post_hsv_def Let_def img7_def [symmetric] using sw by simp
  then show ?thesis using s7 s8 by auto
qed

lemma distort_img_shape:
  assumes ft: "dtype img = Float32" and wf: "wf_image img" and ch: "channels img = 3"
    and v: "valid_draws cfg d"
  shows "\<exists>out. distort_img cfg f g d img = Inr out \<and> shape_of out = shape_of img \<and>
           dtype out = Float32"
proof -
  have w2: "wf_image (pre_hsv d img)" "channels (pre_hsv d img) = 3"
    using same_shape [OF pre_hsv_shape(1), of d img] wf ch by simp_all
  from cvt_color_shape [OF w2, of f] obtain img3 where
    c3: "cvt_color f (pre_hsv d img) = Inr img3"
    and s3: "shape_of img3 = shape_of img" "dtype img3 = Float32"
    using ft by (auto simp: pre_hsv_shape)
  have s5: "shape_of (hsv_steps d img3) = shape_of img"
    using s3 by (simp add: hsv_steps_shape)
  have w5: "wf_image (hsv_steps d img3)" "channels (hsv_steps d img3) = 3"
    using same_shape [OF s5] wf ch by simp_all
  from cvt_color_shape [OF w5, of g] obtain img6 where
    c6: "cvt_color g (hsv_steps d img3) = Inr img6"
    and s6: "shape_of img6 = shape_of img" "dtype img6 = Float32"
    using s3 s5 by (auto simp: hsv_steps_shape)
  have w6: "wf_image img6" "channels img6 = 3"
    using same_shape [OF s6(1)] wf ch by simp_all
  from post_hsv_shape [OF w6 v] obtain out where
    "post_hsv cfg d img6 = Inr out" "shape_of out = shape_of img" "dtype out = Float32"
    using s6 by auto
  then show ?thesis using ft c3 c6 by (simp add: distort_img_def)
qed

lemma map_err_all_or_first:
  assumes "\<And>x. x \<in> set xs \<Longrightarrow> (ok x \<longrightarrow> (\<exists>y. f x = Inr y)) \<and> (\<not> ok x \<longrightarrow> f x = Inl e)"
  shows "((\<exists>x\<in>set xs. \<not> ok x) \<longrightarrow> map_err f xs = Inl e) \<and>
         ((\<forall>x\<in>set xs. ok x) \<longrightarrow> (\<exists>ys. map_err f xs = Inr ys))"
  using assms
proof (induction xs)
  case Nil
  then show ?case by simp
next
  case (Cons x xs)
  from Cons.prems have hd: "(ok x \<longrightarrow> (\<exists>y. f x = Inr y)) \<and> (\<not> ok x \<longrightarrow> f x = Inl e)" by simp
  from Cons.prems have
    "\<And>z. z \<in> set xs \<Longrightarrow> (ok z \<longrightarrow> (\<exists>y. f z = Inr y)) \<and> (\<not> ok z \<longrightarrow> f z = Inl e)" by simp
  from Cons.IH [OF this] have ih:
    "((\<exists>x\<in>set xs. \<not> ok x) \<longrightarrow> map_err f xs = Inl e) \<and>
     ((\<forall>x\<in>set xs. ok x) \<longrightarrow> (\<exists>ys. map_err f xs = Inr ys))" .
  show ?case
  proof (cases "ok x")
    case True
    with hd obtain y where y: "f x = Inr y" by blast
    show ?thesis using True y ih by (cases "\<forall>x\<in>set xs. ok x") auto
  next
    case False
    with hd have "f x = Inl e" by simp
    then show ?thesis using False by auto
  qed
qed

lemma map_err_Inr_nth:
  "map_err f xs = Inr ys \<Longrightarrow> length ys = length xs \<and> (\<forall>i<length xs. f (xs ! i) = Inr (ys ! i))"
proof (induction xs arbitrary: ys)
  case Nil
  then show ?case by simp
next
  case (Cons x xs)
  from Cons.prems obtain y zs where y: "f x = Inr y" and zs: "map_err f xs = Inr zs"
    and ys: "ys = y # zs"
    by (auto split: sum.splits)
  from Cons.IH [OF zs] have ih: "length zs = length xs" "\<forall>i<length xs. f (xs ! i) = Inr (zs ! i)"
    by simp_all
  show ?case unfolding ys using y ih by (auto simp: nth_Cons split: nat.splits)
qed

lemma enumerate_list_length: "length (enumerate_list xs) = length xs"
  by (simp add: enumerate_list_def)

lemma enumerate_list_nth: "i < length xs \<Longrightarrow> enumerate_list xs ! i = (i, xs ! i)"
  by (simp add: enumerate_list_def)

lemma enumerate_list_set: "(i, x) \<in> set (enumerate_list xs) \<Longrightarrow> x \<in> set xs"
  by (auto simp: enumerate_list_def dest: set_zip_rightD)


lemma map_err_Inl_mem: "map_err f xs = Inl e \<Longrightarrow> \<exists>x\<in>set xs. f x = Inl e"
  by (induction xs) (auto split: sum.splits)

lemma cvt_color_error: "cvt_color f img = Inl e \<Longrightarrow> e = CvError"
  by (auto simp: cvt_color_def split: if_splits)

lemma swap_channels_error: "swap_channels perm img = Inl e \<Longrightarrow> e = IndexError"
  by (auto simp: swap_channels_def split: if_splits)

lemma post_hsv_error: "post_hsv cfg d img = Inl e \<Longrightarrow> e = IndexError"
  by (auto simp: post_hsv_def Let_def split: if_splits dest: swap_channels_error)

lemma distort_img_no_assert:
  assumes "dtype img = Float32"
  shows "distort_img cfg f g d img \<noteq> Inl AssertionError"
proof
  assume a: "distort_img cfg f g d img = Inl AssertionError"
  show False
  proof (cases "cvt_color f (pre_hsv d img)")
    case (Inl e)
    with a assms cvt_color_error [OF Inl] show False by (simp add: distort_img_def)
  next
    case (Inr img3)
    show False
    proof (cases "cvt_color g (hsv_steps d img3)")
      case (Inl e)
      with a assms Inr cvt_color_error [OF Inl] show False by (simp add: distort_img_def)
    next
      case r: (Inr img6)
      with a assms Inr have "post_hsv cfg d img6 = Inl AssertionError"
        by (simp add: distort_img_def)
      from post_hsv_error [OF this] show False by simp
    qed
  qed
qed

lemma get_imgs_error: "get_imgs results k = Inl e \<Longrightarrow> e \<noteq> AssertionError"
  by (auto simp: get_imgs_def split: option.splits pyval.splits)

text \<open>
  C8: PhotoMetricDistortionMultiViewImage requires float32 images. On a record of
  H x W x 3 images, if some image has another element type the call fails with an
  assertion error; when all images are float32 the call never fails with an assertion
  error, and it returns.
\<close>

theorem PhotoMetricDistortion_dtype_check:
  assumes img: "get_imgs results ''img'' = Inr imgs" and v: "\<forall>i. valid_draws cfg (ds i)"
  shows "(list_all (\<lambda>img. wf_image img \<and> channels img = 3) imgs \<and>
          list_ex (\<lambda>img. dtype img \<noteq> Float32) imgs \<longrightarrow>
            PhotoMetricDistortion_call cfg f g ds results = Inl AssertionError) \<and>
         (list_all (\<lambda>img. dtype img = Float32) imgs \<longrightarrow>
            PhotoMetricDistortion_call cfg f g ds results \<noteq> Inl AssertionError) \<and>
         (list_all (\<lambda>img. wf_image img \<and> channels img = 3) imgs \<and>
          list_all (\<lambda>img. dtype img = Float32) imgs \<longrightarrow>
            (\<exists>res'. PhotoMetricDistortion_call cfg f g ds results = Inr res'))"
proof (intro conjI impI)
  let ?F = "\<lambda>(i, img). distort_img cfg f g (ds i) img"
  let ?ok = "\<lambda>(i::nat, img). dtype img = Float32"
  {
    assume wf: "list_all (\<lambda>img. wf_image img \<and> channels img = 3) imgs"
    have "\<And>x. x \<in> set (enumerate_list imgs) \<Longrightarrow>
            (?ok x \<longrightarrow> (\<exists>y. ?F x = Inr y)) \<and> (\<not> ?ok x \<longrightarrow> ?F x = Inl AssertionError)"
    proof -
      fix x assume x: "x \<in> set (enumerate_list imgs)"
      obtain i a where xa: "x = (i, a)" by (cases x)
      with x have "a \<in> set imgs" by (auto dest: enumerate_list_set)
      with wf have w: "wf_image a" "channels a = 3" by (simp_all add: list_all_iff)
      from v have vi: "valid_draws cfg (ds i)" by simp
      show "(?ok x \<longrightarrow> (\<exists>y. ?F x = Inr y)) \<and> (\<not> ?ok x \<longrightarrow> ?F x = Inl AssertionError)"
        using distort_img_shape [OF _ w vi, of f g] distort_img_assert [of a cfg f g "ds i"]
        unfolding xa by auto
    qed
    note map_err_all_or_first [of "enumerate_list imgs" ?ok ?F AssertionError, OF this]
  } note main = this
  {
    assume a: "list_all (\<lambda>img. wf_image img \<and> channels img = 3) imgs \<and>
               list_ex (\<lambda>img. dtype img \<noteq> Float32) imgs"
    then obtain b where b: "b \<in> set imgs" "dtype b \<noteq> Float32" by (auto simp: list_ex_iff)
    then obtain i where "i < length imgs" "imgs ! i = b" by (auto simp: in_set_conv_nth)
    then have "(i, b) \<in> set (enumerate_list imgs)"
      using enumerate_list_nth [of i imgs] enumerate_list_length [of imgs] by (metis nth_mem)
    with b have "\<exists>x\<in>set (enumerate_list imgs). \<not> ?ok x" by force
    with main a have "map_err ?F (enumerate_list imgs) = Inl AssertionError" by blast
    then show "PhotoMetricDistortion_call cfg f g ds results = Inl AssertionError"
      using img by (simp add: PhotoMetricDistortion_call_def)
  }
  {
    assume a: "list_all (\<lambda>img. dtype img = Float32) imgs"
    show "PhotoMetricDistortion_call cfg f g ds results \<noteq> Inl AssertionError"
    proof
      assume "PhotoMetricDistortion_call cfg f g ds results = Inl AssertionError"
      then have "map_err ?F (enumerate_list imgs) = Inl AssertionError"
        using img by (simp add: PhotoMetricDistortion_call_def split: sum.splits)
      from map_err_Inl_mem [OF this] obtain i b where
        m: "(i, b) \<in> set (enumerate_list imgs)" and e: "distort_img cfg f g (ds i) b = Inl AssertionError"
        by auto
      from m have "b \<in> set imgs" by (rule enumerate_list_set)
      with a have "dtype b = Float32" by (simp add: list_all_iff)
      from distort_img_no_assert [OF this] e show False by blast
    qed
  }
  {
    assume a: "list_all (\<lambda>img. wf_image img \<and> channels img = 3) imgs \<and>
               list_all (\<lambda>img. dtype img = Float32) imgs"
    then have "\<forall>x\<in>set (enumerate_list imgs). ?ok x"
      by (auto simp: list_all_iff dest: enumerate_list_set)
    with main a obtain ys where "map_err ?F (enumerate_list imgs) = Inr ys" by blast
    then show "\<exists>res'. PhotoMetricDistortion_call cfg f g ds results = Inr res'"
      using img by (simp add: PhotoMetricDistortion_call_def)
  }
qed


lemma valid_draws_example:
  "valid_draws (PhotoMetricDistortion_init 32 (4 / 5, 6 / 5) (4 / 5, 6 / 5) 18 True)
     \<lparr>r_brightness = 1, u_brightness = 10, r_mode = 1, r_contrast = 1, u_contrast = 1,
      r_saturation = 1, u_saturation = 1, r_hue = 1, u_hue = 10, r_swap = 1,
      u_perm = [2, 0, 1]\<rparr>"
  by (auto simp: valid_draws_def in_uniform_def PhotoMetricDistortion_init_def)

lemma wf3_example: "wf_image \<lparr>dtype = t, pix = [[[1, 2, 3]]]\<rparr> \<and> channels \<lparr>dtype = t, pix = [[[1, 2, 3]]]\<rparr> = 3"
  by (simp add: wf_image_def height_def width_def channels_def)

theorem PhotoMetricDistortion_dtype_check_example:
  "PhotoMetricDistortion_call (PhotoMetricDistortion_init 32 (4 / 5, 6 / 5) (4 / 5, 6 / 5) 18 True)
     (\<lambda>x. x) (\<lambda>x. x)
     (\<lambda>i. \<lparr>r_brightness = 1, u_brightness = 10, r_mode = 1, r_contrast = 1, u_contrast = 1,
      r_saturation = 1, u_saturation = 1, r_hue = 1, u_hue = 10, r_swap = 1,
      u_perm = [2, 0, 1]\<rparr>)
     (Map.empty(''img'' \<mapsto> Imgs [\<lparr>dtype = Float32, pix = [[[1, 2, 3]]]\<rparr>,
                                 \<lparr>dtype = UInt8, pix = [[[1, 2, 3]]]\<rparr>]))
     = Inl AssertionError \<and>
   PhotoMetricDistortion_call (PhotoMetricDistortion_init 32 (4 / 5, 6 / 5) (4 / 5, 6 / 5) 18 True)
     (\<lambda>x. x) (\<lambda>x. x)
     (\<lambda>i. \<lparr>r_brightness = 1, u_brightness = 10, r_mode = 1, r_contrast = 1, u_contrast = 1,
      r_saturation = 1, u_saturation = 1, r_hue = 1, u_hue = 10, r_swap = 1,
      u_perm = [2, 0, 1]\<rparr>)
     (Map.empty(''img'' \<mapsto> Imgs [\<lparr>dtype = Float32, pix = [[[1, 2, 3]]]\<rparr>]))
     \<noteq> Inl AssertionError"
proof -
  let ?cfg = "PhotoMetricDistortion_init 32 (4 / 5, 6 / 5) (4 / 5, 6 / 5) 18 True"
  let ?ds = "\<lambda>i::nat. \<lparr>r_brightness = 1, u_brightness = 10, r_mode = 1, r_contrast = 1, u_contrast = 1,
      r_saturation = 1, u_saturation = 1, r_hue = 1, u_hue = 10, r_swap = 1,
      u_perm = [2, 0, 1]\<rparr>"
  let ?a = "\<lparr>dtype = Float32, pix = [[[1, 2, 3::real]]]\<rparr>"
  let ?b = "\<lparr>dtype = UInt8, pix = [[[1, 2, 3::real]]]\<rparr>"
  have v: "\<forall>i. valid_draws ?cfg (?ds i)" using valid_draws_example by simp
  have 1: "get_imgs (Map.empty(''img'' \<mapsto> Imgs [?a, ?b])) ''img'' = Inr [?a, ?b]"
    by (simp add: get_imgs_def)
  have 2: "get_imgs (Map.empty(''img'' \<mapsto> Imgs [?a])) ''img'' = Inr [?a]"
    by (simp add: get_imgs_def)
  have 3: "list_all (\<lambda>img. wf_image img \<and> channels img = 3) [?a, ?b] \<and>
           list_ex (\<lambda>img. dtype img \<noteq> Float32) [?a, ?b]"
    using wf3_example [of Float32] wf3_example [of UInt8] by simp
  have 4: "list_all (\<lambda>img. dtype img = Float32) [?a]" by simp
  show ?thesis
    using PhotoMetricDistortion_dtype_check [OF 1 v, of "\<lambda>x. x" "\<lambda>x. x"] PhotoMetricDistortion_dtype_check [OF 2 v, of "\<lambda>x. x" "\<lambda>x. x"] 3 4
    by blast
qed

lemma map_err_all_Inr:
  assumes "\<And>x. x \<in> set xs \<Longrightarrow> \<exists>y. f x = Inr y"
  shows "\<exists>ys. map_err f xs = Inr ys"
  using assms
proof (induction xs)
  case Nil
  then show ?case by simp
next
  case (Cons x xs)
  from Cons.prems obtain y where "f x = Inr y" by auto
  moreover from Cons obtain ys where "map_err f xs = Inr ys" by auto
  ultimately show ?case by simp
qed

text \<open>
  C9: for every sequence of random draws and every list of well-formed float32 images
  of three channels, the call returns a list of the same length in which every image has
  the height, the width and the channel count (3) of the corresponding input image.
\<close>

theorem PhotoMetricDistortion_preserves_shape:
  assumes img: "get_imgs results ''img'' = Inr imgs"
    and wf: "list_all (\<lambda>img. wf_image img \<and> channels img = 3) imgs"
    and ft: "list_all (\<lambda>img. dtype img = Float32) imgs"
    and v: "\<forall>i. valid_draws cfg (ds i)"
  shows "\<exists>res' outs.
     PhotoMetricDistortion_call cfg f g ds results = Inr res' \<and>
     res' ''img'' = Some (Imgs outs) \<and>
     length outs = length imgs \<and>
     (\<forall>i<length imgs.
        height (outs ! i) = height (imgs ! i) \<and>
        width (outs ! i) = width (imgs ! i) \<and>
        channels (outs ! i) = channels (imgs ! i) \<and>
        channels (outs ! i) = 3 \<and>
        wf_image (outs ! i) \<and> dtype (outs ! i) = Float32)"
proof -
  let ?F = "\<lambda>(i, img). distort_img cfg f g (ds i) img"
  have each: "\<And>i. i < length imgs \<Longrightarrow>
     \<exists>out. distort_img cfg f g (ds i) (imgs ! i) = Inr out \<and>
           shape_of out = shape_of (imgs ! i) \<and> dtype out = Float32"
  proof -
    fix i assume "i < length imgs"
    then have "wf_image (imgs ! i)" "channels (imgs ! i) = 3" "dtype (imgs ! i) = Float32"
      using wf ft by (simp_all add: list_all_length)
    moreover from v have "valid_draws cfg (ds i)" by simp
    ultimately show "\<exists>out. distort_img cfg f g (ds i) (imgs ! i) = Inr out \<and>
           shape_of out = shape_of (imgs ! i) \<and> dtype out = Float32"
      by (intro distort_img_shape)
  qed
  have "\<And>x. x \<in> set (enumerate_list imgs) \<Longrightarrow> \<exists>y. ?F x = Inr y"
  proof -
    fix x assume "x \<in> set (enumerate_list imgs)"
    then obtain i where "i < length imgs" "x = (i, imgs ! i)"
      using enumerate_list_nth [of _ imgs] enumerate_list_length [of imgs]
      by (metis in_set_conv_nth)
    with each [of i] show "\<exists>y. ?F x = Inr y" by auto
  qed
  from map_err_all_Inr [of "enumerate_list imgs" ?F, OF this]
  obtain outs where outs: "map_err ?F (enumerate_list imgs) = Inr outs" by blast
  from map_err_Inr_nth [OF outs]
  have len: "length outs = length imgs"
    and nth: "\<forall>i<length imgs. ?F (enumerate_list imgs ! i) = Inr (outs ! i)"
    by (simp_all add: enumerate_list_length)
  have call: "PhotoMetricDistortion_call cfg f g ds results = Inr (results(''img'' \<mapsto> Imgs outs))"
    using img outs by (simp add: PhotoMetricDistortion_call_def)
  have q: "\<forall>i<length imgs.
        height (outs ! i) = height (imgs ! i) \<and>
        width (outs ! i) = width (imgs ! i) \<and>
        channels (outs ! i) = channels (imgs ! i) \<and>
        channels (outs ! i) = 3 \<and>
        wf_image (outs ! i) \<and> dtype (outs ! i) = Float32"
  proof (intro allI impI)
    fix i assume i: "i < length imgs"
    from nth i have "distort_img cfg f g (ds i) (imgs ! i) = Inr (outs ! i)"
      by (simp add: enumerate_list_nth)
    with each [OF i] have s: "shape_of (outs ! i) = shape_of (imgs ! i)"
      and d: "dtype (outs ! i) = Float32" by auto
    from i wf have w: "wf_image (imgs ! i)" "channels (imgs ! i) = 3"
      by (simp_all add: list_all_length)
    show "height (outs ! i) = height (imgs ! i) \<and>
        width (outs ! i) = width (imgs ! i) \<and>
        channels (outs ! i) = channels (imgs ! i) \<and>
        channels (outs ! i) = 3 \<and>
        wf_image (outs ! i) \<and> dtype (outs ! i) = Float32"
      using same_shape [OF s] w d by simp
  qed
  have r: "(results(''img'' \<mapsto> Imgs outs)) ''img'' = Some (Imgs outs)" by simp
  from call r len q show ?thesis by blast
qed

theorem PhotoMetricDistortion_preserves_shape_example:
  "\<exists>res' outs.
   PhotoMetricDistortion_call (PhotoMetricDistortion_init 32 (4 / 5, 6 / 5) (4 / 5, 6 / 5) 18 True)
     (\<lambda>x. x) (\<lambda>x. x)
     (\<lambda>i. \<lparr>r_brightness = 1, u_brightness = 10, r_mode = 1, r_contrast = 1, u_contrast = 1,
      r_saturation = 1, u_saturation = 1, r_hue = 1, u_hue = 10, r_swap = 1,
      u_perm = [2, 0, 1]\<rparr>)
     (Map.empty(''img'' \<mapsto> Imgs [\<lparr>dtype = Float32, pix = [[[1, 2, 3]]]\<rparr>])) = Inr res' \<and>
   res' ''img'' = Some (Imgs outs) \<and> length outs = 1 \<and>
   height (outs ! 0) = 1 \<and> width (outs ! 0) = 1 \<and> channels (outs ! 0) = 3"
proof -
  let ?cfg = "PhotoMetricDistortion_init 32 (4 / 5, 6 / 5) (4 / 5, 6 / 5) 18 True"
  let ?ds = "\<lambda>i::nat. \<lparr>r_brightness = 1, u_brightness = 10, r_mode = 1, r_contrast = 1, u_contrast = 1,
      r_saturation = 1, u_saturation = 1, r_hue = 1, u_hue = 10, r_swap = 1,
      u_perm = [2, 0, 1]\<rparr>"
  let ?a = "\<lparr>dtype = Float32, pix = [[[1, 2, 3::real]]]\<rparr>"
  have v: "\<forall>i. valid_draws ?cfg (?ds i)" using valid_draws_example by simp
  have 1: "get_imgs (Map.empty(''img'' \<mapsto> Imgs [?a])) ''img'' = Inr [?a]"
    by (simp add: get_imgs_def)
  have 2: "list_all (\<lambda>img. wf_image img \<and> channels img = 3) [?a]"
    using wf3_example [of Float32] by simp
  have 3: "list_all (\<lambda>img. dtype img = Float32) [?a]" by simp
  have 4: "height ?a = 1" "width ?a = 1" by (simp_all add: height_def width_def)
  from PhotoMetricDistortion_preserves_shape [OF 1 2 3 v, of "\<lambda>x. x" "\<lambda>x. x"] show ?thesis
    using 4 by auto
qed

subsection \<open>Random scale\<close>





























end
